theory Spec2Isabelle
  imports Main
begin

section \<open>Shared vocabulary\<close>

text \<open>
  The repository holds three variants of one React Native application: the simple
  two-player variant (\<^verbatim>\<open>src/App.tsx\<close>), the dual-buffer engine variant (first
  document of \<^verbatim>\<open>src/unnamed/part_000\<close>) and the video-store variant (second document
  of \<^verbatim>\<open>src/unnamed/part_000\<close>).

  An \<^verbatim>\<open>async\<close> function ends by resolving or by rejecting its promise; in both cases
  the state it has written so far stays written. The result of an \<^verbatim>\<open>async\<close> function is
  therefore the state it leaves behind, tagged with how the promise settled.
\<close>

datatype 'a promise = Resolved 'a | Rejected 'a

fun state_of :: "'a promise \<Rightarrow> 'a" where
  "state_of (Resolved s) = s"
| "state_of (Rejected s) = s"

fun is_resolved :: "'a promise \<Rightarrow> bool" where
  "is_resolved (Resolved s) = True"
| "is_resolved (Rejected s) = False"

text \<open>The two players of the simple and of the engine variant, \<^verbatim>\<open>'A' | 'B'\<close>.\<close>

datatype label = A | B

section \<open>The video store (\<^verbatim>\<open>useVideoStore\<close>, part\_000 lines 295--347)\<close>

text \<open>
  \<^verbatim>\<open>interface VideoStep { id: string; stepNumber: number; uri: string; originalName: string }\<close>.
  The field \<^verbatim>\<open>id\<close> is named \<open>id_s\<close> and \<^verbatim>\<open>uri\<close> is named \<open>uri_s\<close>, since \<open>id\<close> is a
  constant of HOL and \<open>uri\<close> is a field of the engine variant's record below.
\<close>

record StoredVideoStep =
  id_s :: string
  stepNumber :: int
  uri_s :: string
  originalName :: string

text \<open>The effects the store has on its collaborators (file system, AsyncStorage).\<close>

datatype fs_cmd =
    CopyAsync string string
  | DeleteAsync string
  | SetItem "StoredVideoStep list"

record VideoStore =
  videos :: "StoredVideoStep list"
  isLoading_s :: bool
  fs_log :: "fs_cmd list"

text \<open>Decimal rendering of a number inside a template literal.\<close>

function show_nat :: "nat \<Rightarrow> string" where
  "show_nat n = (if n < 10 then [char_of (48 + n)]
                 else show_nat (n div 10) @ [char_of (48 + n mod 10)])"
  by pat_completeness auto
termination
  by (relation "measure (\<lambda>n. n)") auto

definition show_int :: "int \<Rightarrow> string" where
  "show_int i = (if i < 0 then CHR ''-'' # show_nat (nat (- i)) else show_nat (nat i))"

text \<open>\<^verbatim>\<open>originalName.split('.').pop() || 'mp4'\<close>: the text after the last dot (the whole
  name when it has no dot), and \<^verbatim>\<open>'mp4'\<close> when that text is empty.\<close>

definition extension_of :: "string \<Rightarrow> string" where
  "extension_of name =
     (let seg = rev (takeWhile (\<lambda>c. c \<noteq> CHR ''.'') (rev name))
      in if seg = [] then ''mp4'' else seg)"

definition VIDEO_DIR :: "string \<Rightarrow> string" where
  "VIDEO_DIR documentDirectory = documentDirectory @ ''videos/''"

text \<open>
  \<^verbatim>\<open>addVideo\<close> (lines 325--337). The parameters \<open>copy_ok\<close>, \<open>delete_ok\<close> and \<open>setitem_ok\<close>
  say whether the awaited \<^verbatim>\<open>FileSystem.copyAsync\<close>, \<^verbatim>\<open>FileSystem.deleteAsync\<close> and
  \<^verbatim>\<open>AsyncStorage.setItem\<close> resolve; \<open>now\<close> is \<^verbatim>\<open>Date.now()\<close> and \<open>docDir\<close> is
  \<^verbatim>\<open>FileSystem.documentDirectory\<close>. \<^verbatim>\<open>Array.prototype.sort\<close> is stable, as is
  \<^const>\<open>sort_key\<close>.
\<close>

definition newVideo_of :: "string \<Rightarrow> nat \<Rightarrow> int \<Rightarrow> string \<Rightarrow> StoredVideoStep" where
  "newVideo_of docDir now n name =
     (let ident = ''step_'' @ show_int n @ ''_'' @ show_nat now
      in \<lparr> id_s = ident, stepNumber = n,
           uri_s = VIDEO_DIR docDir @ ident @ ''.'' @ extension_of name,
           originalName = name \<rparr>)"

definition addVideo ::
  "bool \<Rightarrow> bool \<Rightarrow> bool \<Rightarrow> string \<Rightarrow> nat \<Rightarrow> int \<Rightarrow> string \<Rightarrow> string \<Rightarrow> VideoStore
     \<Rightarrow> VideoStore promise" where
  "addVideo copy_ok delete_ok setitem_ok docDir now n sourceUri name st =
     (let newVideo = newVideo_of docDir now n name;
          st1 = st\<lparr>fs_log := fs_log st @ [CopyAsync sourceUri (uri_s newVideo)]\<rparr>
      in if \<not> copy_ok then Rejected st1
         else
           (let vs = videos st1;
                existing = find (\<lambda>v. stepNumber v = n) vs;
                st2 = (case existing of
                         None \<Rightarrow> st1
                       | Some e \<Rightarrow> st1\<lparr>fs_log := fs_log st1 @ [DeleteAsync (uri_s e)]\<rparr>)
            in if existing \<noteq> None \<and> \<not> delete_ok then Rejected st2
               else
                 (let updated = sort_key stepNumber
                                  (filter (\<lambda>v. stepNumber v \<noteq> n) vs @ [newVideo]);
                      st3 = st2\<lparr>videos := updated,
                                fs_log := fs_log st2 @ [SetItem updated]\<rparr>
                  in if setitem_ok then Resolved st3 else Rejected st3)))"

text \<open>\<^verbatim>\<open>removeVideo\<close> (lines 338--345).\<close>

definition removeVideo :: "bool \<Rightarrow> bool \<Rightarrow> int \<Rightarrow> VideoStore \<Rightarrow> VideoStore promise" where
  "removeVideo delete_ok setitem_ok n st =
     (let vs = videos st;
          video = find (\<lambda>v. stepNumber v = n) vs;
          st1 = (case video of
                   None \<Rightarrow> st
                 | Some e \<Rightarrow> st\<lparr>fs_log := fs_log st @ [DeleteAsync (uri_s e)]\<rparr>)
      in if video \<noteq> None \<and> \<not> delete_ok then Rejected st1
         else
           (let updated = filter (\<lambda>v. stepNumber v \<noteq> n) vs;
                st2 = st1\<lparr>videos := updated, fs_log := fs_log st1 @ [SetItem updated]\<rparr>
            in if setitem_ok then Resolved st2 else Rejected st2))"

text \<open>\<^verbatim>\<open>getVideoByStep\<close> (line 346).\<close>

definition getVideoByStep :: "VideoStore \<Rightarrow> int \<Rightarrow> StoredVideoStep option" where
  "getVideoByStep st n = find (\<lambda>v. stepNumber v = n) (videos st)"

text \<open>The store's initial state (lines 307--308).\<close>

definition initial_store :: VideoStore where
  "initial_store = \<lparr> videos = [], isLoading_s = True, fs_log = [] \<rparr>"

text \<open>The invariant of the list: one entry per step number at most, ascending.\<close>

definition store_inv :: "StoredVideoStep list \<Rightarrow> bool" where
  "store_inv vs = (distinct (map stepNumber vs) \<and> sorted (map stepNumber vs))"

section \<open>The dual-buffer engine (first document of part\_000, lines 1--275)\<close>

subsection \<open>Data\<close>

text \<open>\<^verbatim>\<open>const STEP_COUNT = 5\<close> (line 21).\<close>

definition STEP_COUNT :: nat where
  "STEP_COUNT = 5"

text \<open>\<^verbatim>\<open>interface VideoStep { id: number; uri: string | null }\<close> (lines 24--27); the field
  \<^verbatim>\<open>id\<close> is named \<open>id_n\<close>.\<close>

record VideoStep =
  id_n :: nat
  uri :: "string option"

text \<open>\<^verbatim>\<open>!s.uri\<close>: \<^verbatim>\<open>null\<close> and the empty string are the falsy values of
  \<^verbatim>\<open>string | null\<close>.\<close>

definition falsy :: "string option \<Rightarrow> bool" where
  "falsy u = (u = None \<or> u = Some [])"

text \<open>
  The imperative interface of an \<^verbatim>\<open>expo-av\<close> \<^verbatim>\<open>Video\<close> that the repository calls:
  \<^verbatim>\<open>loadAsync({ uri }, { shouldPlay }, false)\<close>, \<^verbatim>\<open>playAsync()\<close>, \<^verbatim>\<open>stopAsync()\<close> and
  \<^verbatim>\<open>unloadAsync()\<close>. Each command the application issues is appended to the log
  \<open>issued\<close> of the state.
\<close>

datatype cmd =
    LoadAsync label "string option" bool
  | PlayAsync label
  | StopAsync label
  | UnloadAsync label

text \<open>\<^verbatim>\<open>Alert.alert(title, message)\<close>, the application's only error signal.\<close>

datatype alert = Alert string string

text \<open>
  What is known of a player from the commands that resolved on it: \<open>source\<close> is
  \<open>None\<close> when nothing is loaded and \<open>Some u\<close> when the player holds, or is loading, the
  source \<^verbatim>\<open>{ uri: u }\<close>; \<open>playing\<close> is the \<^verbatim>\<open>shouldPlay\<close> status.
\<close>

record player =
  source :: "string option option"
  playing :: bool

text \<open>A mounted player with nothing loaded.\<close>

definition unloaded :: player where
  "unloaded = \<lparr> source = None, playing = False \<rparr>"

text \<open>
  The component's state (lines 31--45): the \<^verbatim>\<open>useState\<close> cells, the ref
  \<^verbatim>\<open>isTransitioning\<close>, and the refs \<^verbatim>\<open>playerA\<close>, \<^verbatim>\<open>playerB\<close>, whose \<^verbatim>\<open>current\<close> is
  \<^verbatim>\<open>null\<close> (\<open>None\<close>) or a mounted \<^verbatim>\<open>Video\<close>. The handlers are functions of the state
  with any content of the two refs; which content the component gives them is what
  \<open>render\<close> below says. \<open>timers\<close> counts the pending \<^verbatim>\<open>setTimeout\<close> callbacks of
  line 167.
\<close>

record app =
  steps :: "VideoStep list"
  setupMode :: bool
  isLoading :: bool
  currentIndex :: nat
  activePlayer :: label
  isTransitioning :: bool
  playerA :: "player option"
  playerB :: "player option"
  issued :: "cmd list"
  alerts :: "alert list"
  timers :: nat

text \<open>The state of the first render (lines 31--45) with \<open>pa\<close> and \<open>pb\<close> in the two refs;
  \<^verbatim>\<open>useRef<Video>(null)\<close> makes them \<open>None\<close>.\<close>

definition initial_app :: "player option \<Rightarrow> player option \<Rightarrow> app" where
  "initial_app pa pb =
     \<lparr> steps = map (\<lambda>i. \<lparr> id_n = i, uri = None \<rparr>) [0..<STEP_COUNT],
       setupMode = True, isLoading = False, currentIndex = 0, activePlayer = A,
       isTransitioning = False, playerA = pa, playerB = pb,
       issued = [], alerts = [], timers = 0 \<rparr>"

fun ref_of :: "label \<Rightarrow> app \<Rightarrow> player option" where
  "ref_of A s = playerA s"
| "ref_of B s = playerB s"

fun set_ref :: "label \<Rightarrow> player \<Rightarrow> app \<Rightarrow> app" where
  "set_ref A p s = s\<lparr>playerA := Some p\<rparr>"
| "set_ref B p s = s\<lparr>playerB := Some p\<rparr>"

definition issue :: "cmd \<Rightarrow> app \<Rightarrow> app" where
  "issue c s = s\<lparr>issued := issued s @ [c]\<rparr>"

text \<open>\<^verbatim>\<open>await p; rest\<close>: a rejected promise ends the \<^verbatim>\<open>async\<close> function there.\<close>

fun await :: "'a promise \<Rightarrow> ('a \<Rightarrow> 'a promise) \<Rightarrow> 'a promise" where
  "await (Resolved s) rest = rest s"
| "await (Rejected s) rest = Rejected s"

subsection \<open>Commands on a player ref\<close>

text \<open>
  \<^verbatim>\<open>player.current?.loadAsync({ uri: steps[i].uri! }, { shouldPlay: sp }, false)\<close>, awaited.
  With a \<^verbatim>\<open>null\<close> ref the optional call does nothing and its arguments are not
  evaluated. Otherwise \<^verbatim>\<open>steps[i].uri\<close> is evaluated first, which throws a
  \<^verbatim>\<open>TypeError\<close> when \<^verbatim>\<open>steps[i]\<close> is \<^verbatim>\<open>undefined\<close>; \<open>ok\<close> says whether the
  command's promise resolves. A rejected load leaves the player as it was.
\<close>

definition loadAsync :: "bool \<Rightarrow> label \<Rightarrow> nat \<Rightarrow> bool \<Rightarrow> app \<Rightarrow> app promise" where
  "loadAsync ok l i sp s =
     (case ref_of l s of
        None \<Rightarrow> Resolved s
      | Some p \<Rightarrow>
          if i < length (steps s) then
            (let u = uri (steps s ! i); s1 = issue (LoadAsync l u sp) s
             in if ok then Resolved (set_ref l \<lparr> source = Some u, playing = sp \<rparr> s1)
                else Rejected s1)
          else Rejected s)"

text \<open>
  The same call without \<^verbatim>\<open>await\<close> (lines 153 and 161): the function goes on at once
  and never sees how the load ends, so the player is recorded as holding or loading
  the source. Only the \<^verbatim>\<open>TypeError\<close> of the argument is synchronous.
\<close>

definition loadAsync_detached :: "label \<Rightarrow> nat \<Rightarrow> bool \<Rightarrow> app \<Rightarrow> app promise" where
  "loadAsync_detached l i sp s =
     (case ref_of l s of
        None \<Rightarrow> Resolved s
      | Some p \<Rightarrow>
          if i < length (steps s) then
            (let u = uri (steps s ! i)
             in Resolved (set_ref l \<lparr> source = Some u, playing = sp \<rparr>
                            (issue (LoadAsync l u sp) s)))
          else Rejected s)"

text \<open>\<^verbatim>\<open>await player.current?.playAsync()\<close>.\<close>

definition playAsync :: "bool \<Rightarrow> label \<Rightarrow> app \<Rightarrow> app promise" where
  "playAsync ok l s =
     (case ref_of l s of
        None \<Rightarrow> Resolved s
      | Some p \<Rightarrow>
          (let s1 = issue (PlayAsync l) s
           in if ok then Resolved (set_ref l (p\<lparr>playing := True\<rparr>) s1) else Rejected s1))"

text \<open>\<^verbatim>\<open>await player.current?.unloadAsync()\<close>.\<close>

definition unloadAsync :: "bool \<Rightarrow> label \<Rightarrow> app \<Rightarrow> app promise" where
  "unloadAsync ok l s =
     (case ref_of l s of
        None \<Rightarrow> Resolved s
      | Some p \<Rightarrow>
          (let s1 = issue (UnloadAsync l) s
           in if ok then Resolved (set_ref l \<lparr> source = None, playing = False \<rparr> s1)
              else Rejected s1))"

subsection \<open>\<^verbatim>\<open>startExperience\<close> (lines 108--137)\<close>

definition steps_incomplete_alert :: alert where
  "steps_incomplete_alert =
     Alert ''Steps Incomplete'' ''Please upload all videos to ensure a seamless flow.''"

definition engine_error_alert :: alert where
  "engine_error_alert = Alert ''Engine Error'' ''Failed to initialize video players.''"

text \<open>
  \<open>loadA_ok\<close> and \<open>loadB_ok\<close> say whether the two awaited loads resolve. The
  \<^verbatim>\<open>try\<close> block is \<open>startExperience_try\<close>; the \<^verbatim>\<open>catch\<close> raises the alert and the
  \<^verbatim>\<open>finally\<close> clears \<^verbatim>\<open>isLoading\<close>, so the function itself never rejects.
\<close>

definition startExperience_try :: "bool \<Rightarrow> bool \<Rightarrow> app \<Rightarrow> app promise" where
  "startExperience_try loadA_ok loadB_ok s =
     await (loadAsync loadA_ok A 0 True s) (\<lambda>s1.
     await (loadAsync loadB_ok B 1 False s1) (\<lambda>s2.
     Resolved (s2\<lparr>setupMode := False\<rparr>)))"

definition startExperience :: "bool \<Rightarrow> bool \<Rightarrow> app \<Rightarrow> app" where
  "startExperience loadA_ok loadB_ok s =
     (if list_ex (\<lambda>st. falsy (uri st)) (steps s)
      then s\<lparr>alerts := alerts s @ [steps_incomplete_alert]\<rparr>
      else
        (case startExperience_try loadA_ok loadB_ok (s\<lparr>isLoading := True\<rparr>) of
           Resolved s' \<Rightarrow> s'\<lparr>isLoading := False\<rparr>
         | Rejected s' \<Rightarrow> s'\<lparr>alerts := alerts s' @ [engine_error_alert], isLoading := False\<rparr>))"

subsection \<open>\<^verbatim>\<open>handleGlobalTap\<close> (lines 139--168)\<close>

text \<open>
  One branch of the \<^verbatim>\<open>if (activePlayer === 'A')\<close> of lines 146--162: play the primed
  player \<open>new\<close>, make it the active one, unload the player \<open>old\<close> and start loading the
  step \<open>preloadIndex\<close> into it.
\<close>

definition switch_players :: "bool \<Rightarrow> bool \<Rightarrow> label \<Rightarrow> label \<Rightarrow> nat \<Rightarrow> app \<Rightarrow> app promise" where
  "switch_players play_ok unload_ok new old preloadIndex s =
     await (playAsync play_ok new s) (\<lambda>s1.
     await (unloadAsync unload_ok old (s1\<lparr>activePlayer := new\<rparr>)) (\<lambda>s2.
     loadAsync_detached old preloadIndex False s2))"

text \<open>
  \<open>play_ok\<close> and \<open>unload_ok\<close> say whether the awaited \<^verbatim>\<open>playAsync\<close> and
  \<^verbatim>\<open>unloadAsync\<close> resolve. The function has no \<^verbatim>\<open>try\<close>: a rejection leaves the state as
  written so far, with the lock set and no timer to release it.

  For an empty list JavaScript's \<^verbatim>\<open>%\<close> gives \<^verbatim>\<open>NaN\<close>, which \<open>nat\<close> does not have:
  there the model differs from the code in the number written to \<^verbatim>\<open>currentIndex\<close>, and
  in nothing else (\<^verbatim>\<open>steps[NaN]\<close> is \<^verbatim>\<open>undefined\<close>, as are the out-of-range entries
  the model reads). The theorems that speak of that number assume a non-empty list;
  \<^verbatim>\<open>steps.length\<close> is \<open>STEP_COUNT\<close> in every state of the component.
\<close>

definition handleGlobalTap :: "bool \<Rightarrow> bool \<Rightarrow> app \<Rightarrow> app promise" where
  "handleGlobalTap play_ok unload_ok s =
     (if isTransitioning s then Resolved s
      else
        (let s1 = s\<lparr>isTransitioning := True\<rparr>;
             nextIndex = (currentIndex s1 + 1) mod length (steps s1);
             preloadIndex = (nextIndex + 1) mod length (steps s1)
         in await
              (if activePlayer s1 = A
               then switch_players play_ok unload_ok B A preloadIndex s1
               else switch_players play_ok unload_ok A B preloadIndex s1)
              (\<lambda>s2. Resolved (s2\<lparr>currentIndex := nextIndex, timers := Suc (timers s2)\<rparr>))))"

text \<open>The callback of \<^verbatim>\<open>setTimeout(() => { isTransitioning.current = false; }, 400)\<close>.\<close>

definition fireTimer :: "app \<Rightarrow> app" where
  "fireTimer s =
     (if 0 < timers s then s\<lparr>isTransitioning := False, timers := timers s - 1\<rparr> else s)"

text \<open>The player that is not the active one.\<close>

definition standbyPlayer :: "app \<Rightarrow> label" where
  "standbyPlayer s = (if activePlayer s = A then B else A)"

subsection \<open>Asset management (lines 68--105)\<close>

definition upload_error_alert :: alert where
  "upload_error_alert = Alert ''Upload Error'' ''Could not save video locally.''"

text \<open>
  \<^verbatim>\<open>handleUpload\<close> (lines 85--105). The picker is cancelled, or returns an asset whose
  copy resolves or not (\<open>copy_ok\<close>). \<^verbatim>\<open>newSteps[index].uri = destination\<close> writes the
  field of the step object itself; where \<^verbatim>\<open>newSteps[index]\<close> is \<^verbatim>\<open>undefined\<close> it throws,
  inside the \<^verbatim>\<open>try\<close>, like a failed copy. The parameter \<^verbatim>\<open>index\<close> is named \<open>i\<close>.
\<close>

datatype upload = UploadCanceled | Uploaded string bool

definition handleUpload :: "upload \<Rightarrow> string \<Rightarrow> nat \<Rightarrow> app \<Rightarrow> app" where
  "handleUpload result docDir i s =
     (case result of
        UploadCanceled \<Rightarrow> s
      | Uploaded asset copy_ok \<Rightarrow>
          (let destination = VIDEO_DIR docDir @ ''step_'' @ show_nat i @ ''.mp4''
           in if copy_ok \<and> i < length (steps s)
              then s\<lparr>steps := (steps s)[i := (steps s ! i)\<lparr>uri := Some destination\<rparr>]\<rparr>
              else s\<lparr>alerts := alerts s @ [upload_error_alert]\<rparr>))"

text \<open>
  \<^verbatim>\<open>loadSavedAssets\<close> (lines 68--82). The directory listing is \<open>None\<close> when
  \<^verbatim>\<open>readDirectoryAsync\<close> rejects; each file comes with the value of
  \<^verbatim>\<open>parseInt(file.split('_')[1])\<close>, \<open>None\<close> for \<^verbatim>\<open>NaN\<close>. The loop writes the step objects
  themselves, so what it wrote before a \<^verbatim>\<open>TypeError\<close> (a negative index) stays written.
\<close>

fun load_files :: "string \<Rightarrow> (string \<times> int option) list \<Rightarrow> VideoStep list \<Rightarrow> VideoStep list" where
  "load_files docDir [] st = st"
| "load_files docDir ((file, None) # fs) st = load_files docDir fs st"
| "load_files docDir ((file, Some i) # fs) st =
     (if i < int STEP_COUNT then
        (if 0 \<le> i \<and> nat i < length st
         then load_files docDir fs
                (st[nat i := (st ! nat i)\<lparr>uri := Some (VIDEO_DIR docDir @ file)\<rparr>])
         else st)
      else load_files docDir fs st)"

definition loadSavedAssets :: "(string \<times> int option) list option \<Rightarrow> string \<Rightarrow> app \<Rightarrow> app" where
  "loadSavedAssets listing docDir s =
     (case listing of
        None \<Rightarrow> s
      | Some files \<Rightarrow> s\<lparr>steps := load_files docDir files (steps s)\<rparr>)"

subsection \<open>Runs of the engine variant\<close>

text \<open>
  What the component renders (lines 171--238). The setup screen has no \<^verbatim>\<open>Video\<close>
  element, so while \<^verbatim>\<open>setupMode\<close> holds both refs are \<^verbatim>\<open>null\<close>. The playback screen
  has the two \<^verbatim>\<open>Video\<close> elements, neither with a \<^verbatim>\<open>source\<close> prop: when it is first
  rendered React mounts two players with nothing loaded and puts them in the refs,
  where they stay.
\<close>

definition render :: "app \<Rightarrow> app" where
  "render s =
     (if setupMode s then s\<lparr>playerA := None, playerB := None\<rparr>
      else s\<lparr>playerA := Some (case playerA s of None \<Rightarrow> unloaded | Some p \<Rightarrow> p),
             playerB := Some (case playerB s of None \<Rightarrow> unloaded | Some p \<Rightarrow> p)\<rparr>)"

text \<open>
  What can happen to the component: the mount effect's \<^verbatim>\<open>loadSavedAssets\<close> ends, a
  \<^verbatim>\<open>handleUpload\<close> ends (its card, one per step, was pressed on the setup screen; it
  writes the step object itself, so it does the same whenever it ends), the launch
  button is pressed (setup screen only), the viewport is tapped (playback screen
  only), a lock timer fires. The component is rendered after each of them. A handler
  is taken as a whole: the renders between its awaits are not states of the run.
\<close>

datatype engine_event =
    LoadSavedAssets "(string \<times> int option) list option"
  | HandleUpload nat upload
  | StartExperience bool bool
  | HandleGlobalTap bool bool
  | FireTimer

fun engine_step :: "string \<Rightarrow> engine_event \<Rightarrow> app \<Rightarrow> app" where
  "engine_step docDir (LoadSavedAssets listing) s = loadSavedAssets listing docDir s"
| "engine_step docDir (HandleUpload i result) s =
     (if i < length (steps s) then handleUpload result docDir i s else s)"
| "engine_step docDir (StartExperience loadA_ok loadB_ok) s =
     (if setupMode s then startExperience loadA_ok loadB_ok s else s)"
| "engine_step docDir (HandleGlobalTap play_ok unload_ok) s =
     (if setupMode s then s else state_of (handleGlobalTap play_ok unload_ok s))"
| "engine_step docDir FireTimer s = fireTimer s"

text \<open>The runs of the component, from its first render.\<close>

definition engine_run :: "string \<Rightarrow> engine_event list \<Rightarrow> app" where
  "engine_run docDir evs =
     fold (\<lambda>e s. render (engine_step docDir e s)) evs (initial_app None None)"

subsection \<open>Vocabulary of the claims\<close>

text \<open>The commands a call issued: what it appended to the log.\<close>

definition commands_of :: "app \<Rightarrow> app \<Rightarrow> cmd list" where
  "commands_of s s' = drop (length (issued s)) (issued s')"

text \<open>The commands that reclaim a player: its unload and its reload.\<close>

fun reclaims :: "label \<Rightarrow> cmd \<Rightarrow> bool" where
  "reclaims l (UnloadAsync l') = (l = l')"
| "reclaims l (LoadAsync l' u sp) = (l = l')"
| "reclaims l c = False"

text \<open>The source a player holds or is loading; \<open>None\<close> for an empty or unmounted one.\<close>

definition bound_source :: "label \<Rightarrow> app \<Rightarrow> string option option" where
  "bound_source l s = (case ref_of l s of None \<Rightarrow> None | Some p \<Rightarrow> source p)"

text \<open>
  The engine invariant of the specification: the active player is not the standby
  player, the active player holds the clip of \<^verbatim>\<open>currentIndex\<close>, and the standby player
  holds or is loading the clip of \<^verbatim>\<open>(currentIndex + 1) % steps.length\<close>.
\<close>

definition engine_inv :: "app \<Rightarrow> bool" where
  "engine_inv s =
     (activePlayer s \<noteq> standbyPlayer s
      \<and> bound_source (activePlayer s) s = Some (uri (steps s ! currentIndex s))
      \<and> bound_source (standbyPlayer s) s
          = Some (uri (steps s ! ((currentIndex s + 1) mod length (steps s)))))"

text \<open>One tap whose commands resolve, followed by its lock timer.\<close>

definition advance :: "app \<Rightarrow> app" where
  "advance s = fireTimer (state_of (handleGlobalTap True True s))"

text \<open>The active player after \<open>n\<close> switches, starting from \<open>l\<close>.\<close>

fun toggled :: "nat \<Rightarrow> label \<Rightarrow> label" where
  "toggled n l = (if even n then l else (if l = A then B else A))"

section \<open>The simple variant (\<^verbatim>\<open>src/App.tsx\<close>)\<close>

text \<open>
  The \<^verbatim>\<open>useState\<close> cells of lines 11--19 that the code reads; \<^verbatim>\<open>uris\<close> is a
  JavaScript array, whose holes are \<open>None\<close>. The cells \<^verbatim>\<open>playing\<close> and
  \<^verbatim>\<open>activePlayer\<close> are named \<open>playing_s\<close> and \<open>activePlayer_s\<close>. \<open>inflight\<close> holds
  the calls of \<^verbatim>\<open>pickVideo\<close> that have not ended: each with its argument and with the
  \<^verbatim>\<open>uris\<close> of the render whose button was pressed, which is the array its closure
  reads.
\<close>

record simple_app =
  uris :: "string option list"
  playing_s :: bool
  index :: nat
  activePlayer_s :: label
  inflight :: "(nat \<times> string option list) list"

definition initial_simple :: simple_app where
  "initial_simple =
     \<lparr> uris = [], playing_s = False, index = 0, activePlayer_s = A, inflight = [] \<rparr>"

text \<open>\<^verbatim>\<open>newUris[i] = path\<close>: an index past the end extends the array, leaving holes.\<close>

definition array_set :: "'a option list \<Rightarrow> nat \<Rightarrow> 'a \<Rightarrow> 'a option list" where
  "array_set xs i v =
     (if i < length xs then xs[i := Some v]
      else xs @ replicate (i - length xs) None @ [Some v])"

text \<open>
  \<^verbatim>\<open>pickVideo\<close> (lines 21--31), from the answer of the picker to its end. \<open>captured\<close>
  is the \<^verbatim>\<open>uris\<close> of the closure: \<^verbatim>\<open>[...uris]\<close> copies that array, not the current
  one. \<open>copy_ok\<close> and \<open>setitem_ok\<close> say whether the awaited \<^verbatim>\<open>FileSystem.copyAsync\<close>
  and \<^verbatim>\<open>AsyncStorage.setItem\<close> resolve.
\<close>

datatype pick = Canceled | Picked string

definition pickVideo ::
  "pick \<Rightarrow> bool \<Rightarrow> bool \<Rightarrow> string \<Rightarrow> nat \<Rightarrow> string option list \<Rightarrow> simple_app
     \<Rightarrow> simple_app promise" where
  "pickVideo result copy_ok setitem_ok docDir i captured s =
     (case result of
        Canceled \<Rightarrow> Resolved s
      | Picked asset \<Rightarrow>
          if \<not> copy_ok then Rejected s
          else
            (let path = docDir @ ''vid'' @ show_nat i @ ''.mp4'';
                 newUris = array_set captured i path;
                 s1 = s\<lparr>uris := newUris\<rparr>
             in if setitem_ok then Resolved s1 else Rejected s1))"

text \<open>\<^verbatim>\<open>next\<close> (lines 33--36), named \<open>next_tap\<close>.\<close>

definition next_tap :: "simple_app \<Rightarrow> simple_app" where
  "next_tap s =
     s\<lparr>index := (index s + 1) mod length (uris s),
       activePlayer_s := (if activePlayer_s s = A then B else A)\<rparr>"

text \<open>
  What can happen (lines 38--75). While playing, the screen offers the tap; otherwise
  the three upload buttons and, once \<^verbatim>\<open>uris.length >= 2\<close>, the start button. Pressing
  an upload button starts a call of \<^verbatim>\<open>pickVideo\<close>; a call that was started ends at any
  later time, on either screen.
\<close>

datatype simple_event =
    PickVideo nat
  | PickVideoEnds nat pick bool bool
  | Start
  | Next

fun simple_step :: "string \<Rightarrow> simple_event \<Rightarrow> simple_app \<Rightarrow> simple_app" where
  "simple_step docDir (PickVideo i) s =
     (if \<not> playing_s s \<and> i \<in> {0, 1, 2}
      then s\<lparr>inflight := inflight s @ [(i, uris s)]\<rparr> else s)"
| "simple_step docDir (PickVideoEnds k result copy_ok setitem_ok) s =
     (if k < length (inflight s)
      then state_of
             (pickVideo result copy_ok setitem_ok docDir
                (fst (inflight s ! k)) (snd (inflight s ! k))
                (s\<lparr>inflight := take k (inflight s) @ drop (Suc k) (inflight s)\<rparr>))
      else s)"
| "simple_step docDir Start s =
     (if \<not> playing_s s \<and> 2 \<le> length (uris s) then s\<lparr>playing_s := True\<rparr> else s)"
| "simple_step docDir Next s = (if playing_s s then next_tap s else s)"

definition simple_run :: "string \<Rightarrow> simple_event list \<Rightarrow> simple_app" where
  "simple_run docDir evs = fold (simple_step docDir) evs initial_simple"

section \<open>Concrete states\<close>

text \<open>A store holding a video for step 1 and one for step 2, added in the order 2, 1.\<close>

definition two_videos :: VideoStore where
  "two_videos =
     state_of (addVideo True True True ''doc/'' 8 1 ''lib/b.mp4'' ''b.mp4''
       (state_of (addVideo True True True ''doc/'' 7 2 ''lib/a.mov'' ''a.mov'' initial_store)))"

text \<open>Five uploaded steps, index 0, player A active, and two mounted, empty players.\<close>

definition demo_steps :: "VideoStep list" where
  "demo_steps = map (\<lambda>i. \<lparr> id_n = i, uri = Some (''v'' @ show_nat i) \<rparr>) [0..<STEP_COUNT]"

definition demo_app :: app where
  "demo_app = (initial_app (Some unloaded) (Some unloaded)) \<lparr>steps := demo_steps\<rparr>"

text \<open>The same after a successful \<^verbatim>\<open>startExperience\<close>.\<close>

definition playing_app :: app where
  "playing_app = startExperience True True demo_app"

text \<open>The playback state after one tap whose commands resolved; the lock is still set.\<close>

definition tapped_app :: app where
  "tapped_app = state_of (handleGlobalTap True True playing_app)"

text \<open>The playback state in which the standby player B holds nothing: its background
  load has failed.\<close>

definition stalled_app :: app where
  "stalled_app = playing_app \<lparr>playerB := Some unloaded\<rparr>"

text \<open>Scenario B of the specification: four steps, the third without a locator.\<close>

definition scenario_b :: app where
  "scenario_b = (initial_app (Some unloaded) (Some unloaded))
     \<lparr>steps := [\<lparr> id_n = 0, uri = Some ''v0'' \<rparr>, \<lparr> id_n = 1, uri = Some ''v1'' \<rparr>,
                \<lparr> id_n = 2, uri = None \<rparr>, \<lparr> id_n = 3, uri = Some ''v3'' \<rparr>]\<rparr>"

text \<open>A run of the simple variant: one upload, into the third slot, then start and a tap.\<close>

definition simple_events :: "simple_event list" where
  "simple_events =
     [PickVideo 2, PickVideoEnds 0 (Picked ''lib/c.mp4'') True True, Start, Next]"

text \<open>
  Another: the first two upload buttons are pressed while the array is empty, the
  second call ends, playback starts, and then the first call ends.
\<close>

definition late_pick_events :: "simple_event list" where
  "late_pick_events =
     [PickVideo 0, PickVideo 1, PickVideoEnds 1 (Picked ''lib/b.mp4'') True True, Start,
      PickVideoEnds 0 (Picked ''lib/a.mp4'') True True]"

text \<open>Runs of the engine variant: the five uploads; then the launch; then a tap.\<close>

definition upload_events :: "engine_event list" where
  "upload_events =
     [HandleUpload 0 (Uploaded ''lib/a'' True), HandleUpload 1 (Uploaded ''lib/b'' True),
      HandleUpload 2 (Uploaded ''lib/c'' True), HandleUpload 3 (Uploaded ''lib/d'' True),
      HandleUpload 4 (Uploaded ''lib/e'' True)]"

definition uploaded_app :: app where
  "uploaded_app = engine_run ''doc/'' upload_events"

definition launched_app :: app where
  "launched_app = engine_run ''doc/'' (upload_events @ [StartExperience True True])"

definition engine_events :: "engine_event list" where
  "engine_events = upload_events @ [StartExperience True True, HandleGlobalTap True True]"

section \<open>Properties of the video store\<close>

lemma distinct_map_insort_key:
  "distinct (map f (insort_key f x xs)) = (f x \<notin> f ` set xs \<and> distinct (map f xs))"
  by (induction xs) (auto simp: set_insort_key)

lemma distinct_map_sort_key:
  "distinct (map f (sort_key f xs)) = distinct (map f xs)"
  by (induction xs) (auto simp: distinct_map_insort_key)

lemma store_inv_filter:
  "store_inv vs \<Longrightarrow> store_inv (filter P vs)"
  by (simp add: store_inv_def distinct_map_filter sorted_filter)

lemma filter_neq_all:
  "\<forall>x\<in>set xs. f x \<noteq> k \<Longrightarrow> filter (\<lambda>v. f v \<noteq> k) xs = xs"
  by (induction xs) auto

lemma length_filter_distinct_key:
  "distinct (map f xs) \<Longrightarrow> find (\<lambda>v. f v = k) xs \<noteq> None \<Longrightarrow>
   length (filter (\<lambda>v. f v \<noteq> k) xs) + 1 = length xs"
proof (induction xs)
  case Nil
  then show ?case by simp
next
  case (Cons x xs)
  show ?case
  proof (cases "f x = k")
    case True
    then have "\<forall>y\<in>set xs. f y \<noteq> k"
      using Cons.prems(1) by (auto simp: image_iff)
    then show ?thesis
      using True by (simp add: filter_neq_all)
  next
    case False
    then show ?thesis
      using Cons by simp
  qed
qed

lemma videos_addVideo:
  "videos (state_of (addVideo c d k docDir now n src name st)) =
     (if c \<and> (getVideoByStep st n = None \<or> d)
      then sort_key stepNumber
             (filter (\<lambda>v. stepNumber v \<noteq> n) (videos st) @ [newVideo_of docDir now n name])
      else videos st)"
  by (auto simp: addVideo_def getVideoByStep_def Let_def split: option.splits)

lemma videos_removeVideo:
  "videos (state_of (removeVideo d k n st)) =
     (if getVideoByStep st n = None \<or> d
      then filter (\<lambda>v. stepNumber v \<noteq> n) (videos st)
      else videos st)"
  by (auto simp: removeVideo_def getVideoByStep_def Let_def split: option.splits)

lemma stepNumber_newVideo: "stepNumber (newVideo_of docDir now n name) = n"
  by (simp add: newVideo_of_def Let_def)

lemma store_inv_add:
  assumes "distinct (map stepNumber vs)" "stepNumber nv = n"
  shows "store_inv (sort_key stepNumber (filter (\<lambda>v. stepNumber v \<noteq> n) vs @ [nv]))"
proof -
  let ?ys = "filter (\<lambda>v. stepNumber v \<noteq> n) vs @ [nv]"
  have "distinct (map stepNumber (filter (\<lambda>v. stepNumber v \<noteq> n) vs))"
    using assms(1) by (rule distinct_map_filter)
  then have "distinct (map stepNumber ?ys)"
    using assms(2) by auto
  then show ?thesis
    by (simp only: store_inv_def distinct_map_sort_key sorted_sort_key simp_thms)
qed

lemma filter_eq_updated:
  assumes "stepNumber nv = n"
  shows "filter (\<lambda>v. stepNumber v = n)
           (sort_key stepNumber (filter (\<lambda>v. stepNumber v \<noteq> n) vs @ [nv])) = [nv]"
proof -
  have "filter (\<lambda>v. stepNumber v = n) (filter (\<lambda>v. stepNumber v \<noteq> n) vs) = []"
    by (induction vs) auto
  then show ?thesis
    using assms by (simp add: sort_key_stable del: sort_key_simps)
qed

lemma filter_neq_updated:
  assumes "sorted (map stepNumber vs)" "stepNumber nv = n"
  shows "filter (\<lambda>v. stepNumber v \<noteq> n)
           (sort_key stepNumber (filter (\<lambda>v. stepNumber v \<noteq> n) vs @ [nv]))
         = filter (\<lambda>v. stepNumber v \<noteq> n) vs"
proof -
  have "sorted (map stepNumber (filter (\<lambda>v. stepNumber v \<noteq> n) vs))"
    using assms(1) by (rule sorted_filter)
  then have "sort_key stepNumber (filter (\<lambda>v. stepNumber v \<noteq> n) vs)
             = filter (\<lambda>v. stepNumber v \<noteq> n) vs"
    by (rule sort_key_id_if_sorted)
  then show ?thesis
    using assms(2) by (simp add: filter_sort del: sort_key_simps)
qed

text \<open>
  Claim C10. If the \<^verbatim>\<open>videos\<close> list has at most one entry per \<^verbatim>\<open>stepNumber\<close> and is in
  ascending \<^verbatim>\<open>stepNumber\<close> order, it still is after \<^verbatim>\<open>addVideo\<close> and after
  \<^verbatim>\<open>removeVideo\<close>, however their file and storage operations end. When \<^verbatim>\<open>addVideo\<close>
  gets as far as writing the list (the copy resolved, and so did the deletion of an
  existing entry's file), the new entry is the only one with its step number, every
  entry of another step number is kept, and for an occupied step number the list keeps
  its length: the existing entry is replaced.
\<close>

theorem store_invariant_preserved:
  assumes "store_inv (videos st)"
  shows "store_inv (videos (state_of (addVideo c d k docDir now n src name st)))
       \<and> store_inv (videos (state_of (removeVideo d' k' m st)))
       \<and> (c \<and> (getVideoByStep st n = None \<or> d) \<longrightarrow>
            filter (\<lambda>v. stepNumber v = n)
                (videos (state_of (addVideo c d k docDir now n src name st)))
              = [newVideo_of docDir now n name]
          \<and> filter (\<lambda>v. stepNumber v \<noteq> n)
                (videos (state_of (addVideo c d k docDir now n src name st)))
              = filter (\<lambda>v. stepNumber v \<noteq> n) (videos st)
          \<and> (getVideoByStep st n \<noteq> None \<longrightarrow>
               length (videos (state_of (addVideo c d k docDir now n src name st)))
                 = length (videos st)))"
proof -
  have d: "distinct (map stepNumber (videos st))" and s: "sorted (map stepNumber (videos st))"
    using assms by (simp_all add: store_inv_def)
  have 1: "store_inv (videos (state_of (addVideo c d k docDir now n src name st)))"
    using assms store_inv_add[OF d stepNumber_newVideo] by (simp add: videos_addVideo)
  have 2: "store_inv (videos (state_of (removeVideo d' k' m st)))"
    using assms by (simp add: videos_removeVideo store_inv_filter)
  have 3: "filter (\<lambda>v. stepNumber v = n)
               (videos (state_of (addVideo c d k docDir now n src name st)))
             = [newVideo_of docDir now n name]"
    if "c \<and> (getVideoByStep st n = None \<or> d)"
    using that filter_eq_updated[OF stepNumber_newVideo] by (simp add: videos_addVideo)
  have 4: "filter (\<lambda>v. stepNumber v \<noteq> n)
               (videos (state_of (addVideo c d k docDir now n src name st)))
             = filter (\<lambda>v. stepNumber v \<noteq> n) (videos st)"
    if "c \<and> (getVideoByStep st n = None \<or> d)"
    using that filter_neq_updated[OF s stepNumber_newVideo] by (simp add: videos_addVideo)
  have 5: "length (videos (state_of (addVideo c d k docDir now n src name st)))
             = length (videos st)"
    if "c \<and> (getVideoByStep st n = None \<or> d)" "getVideoByStep st n \<noteq> None"
    using that length_filter_distinct_key[OF d, of n]
    by (simp add: videos_addVideo getVideoByStep_def)
  show ?thesis
    using 1 2 3 4 5 by blast
qed

theorem store_invariant_preserved_witness:
  "store_inv (videos two_videos)
   \<and> getVideoByStep two_videos 2 \<noteq> None
   \<and> store_inv (videos (state_of
         (addVideo True True True ''doc/'' 9 2 ''lib/c.mov'' ''c'' two_videos)))
   \<and> store_inv (videos (state_of (removeVideo True True 1 two_videos)))
   \<and> filter (\<lambda>v. stepNumber v = 2)
        (videos (state_of (addVideo True True True ''doc/'' 9 2 ''lib/c.mov'' ''c'' two_videos)))
       = [newVideo_of ''doc/'' 9 2 ''c'']
   \<and> length (videos (state_of
         (addVideo True True True ''doc/'' 9 2 ''lib/c.mov'' ''c'' two_videos))) = 2"
proof -
  have inv: "store_inv (videos two_videos)"
    by code_simp
  have occ: "getVideoByStep two_videos 2 \<noteq> None"
    by code_simp
  have len: "length (videos two_videos) = 2"
    by code_simp
  show ?thesis
    using inv occ len
      store_invariant_preserved
        [OF inv, of True True True "''doc/''" 9 2 "''lib/c.mov''" "''c''" True True 1]
    by simp
qed

section \<open>Properties of the engine\<close>

subsection \<open>The transition lock\<close>

lemmas engine_defs = handleGlobalTap_def switch_players_def playAsync_def unloadAsync_def
  loadAsync_detached_def loadAsync_def issue_def standbyPlayer_def Let_def

lemma handleGlobalTap_locked:
  "isTransitioning s \<Longrightarrow> handleGlobalTap p u s = Resolved s"
  by (simp add: handleGlobalTap_def)

lemma isTransitioning_after_tap:
  "isTransitioning (state_of (handleGlobalTap p u s))"
  by (cases "activePlayer s") (auto simp: engine_defs split: option.splits)

lemma resolved_tap:
  assumes "\<not> isTransitioning s" and "steps s \<noteq> []"
    and "handleGlobalTap p u s = Resolved s1"
  shows "activePlayer s1 = standbyPlayer s
       \<and> currentIndex s1 = (currentIndex s + 1) mod length (steps s)"
  using assms
  by (cases "activePlayer s") (auto simp: engine_defs split: option.splits if_splits)

lemma tap_outcomes:
  assumes "\<not> isTransitioning s" and "steps s \<noteq> []"
    and "playerA s \<noteq> None" and "playerB s \<noteq> None"
  shows "activePlayer (state_of (handleGlobalTap True True s)) = standbyPlayer s
       \<and> currentIndex (state_of (handleGlobalTap True True s))
           = (currentIndex s + 1) mod length (steps s)"
    and "activePlayer (state_of (handleGlobalTap True False s)) = standbyPlayer s
       \<and> currentIndex (state_of (handleGlobalTap True False s)) = currentIndex s"
    and "activePlayer (state_of (handleGlobalTap False u s)) = activePlayer s
       \<and> currentIndex (state_of (handleGlobalTap False u s)) = currentIndex s"
proof -
  have pos: "0 < length (steps s)"
    using assms(2) by simp
  have idx: "Suc (Suc (currentIndex s) mod length (steps s)) mod length (steps s)
               < length (steps s)"
    by (rule mod_less_divisor[OF pos])
  show "activePlayer (state_of (handleGlobalTap True True s)) = standbyPlayer s
       \<and> currentIndex (state_of (handleGlobalTap True True s))
           = (currentIndex s + 1) mod length (steps s)"
    using assms idx by (cases "activePlayer s") (auto simp: engine_defs)
  show "activePlayer (state_of (handleGlobalTap True False s)) = standbyPlayer s
       \<and> currentIndex (state_of (handleGlobalTap True False s)) = currentIndex s"
    using assms by (cases "activePlayer s") (auto simp: engine_defs)
  show "activePlayer (state_of (handleGlobalTap False u s)) = activePlayer s
       \<and> currentIndex (state_of (handleGlobalTap False u s)) = currentIndex s"
    using assms by (cases "activePlayer s") (auto simp: engine_defs)
qed

text \<open>
  Claim C2, as the code has it. A tap that finds the lock set returns the state as it
  is: it issues no command and writes nothing. A tap that finds the lock free leaves
  it set, however its commands end, so a second tap before the timer fires changes
  nothing, and two taps leave what the first one alone leaves. With both players
  mounted and a non-empty list of steps that is: one switch of the active player and
  \<^verbatim>\<open>currentIndex\<close> one step on, modulo the number of steps, when the play and the
  unload of the first tap resolve; one switch and the same \<^verbatim>\<open>currentIndex\<close> when its
  unload rejects; no switch and the same \<^verbatim>\<open>currentIndex\<close> when its play rejects.
\<close>

theorem locked_advance_is_noop:
  "(isTransitioning s \<longrightarrow>
        handleGlobalTap p u s = Resolved s
      \<and> commands_of s (state_of (handleGlobalTap p u s)) = [])
   \<and> (\<not> isTransitioning s \<longrightarrow>
        handleGlobalTap p' u' (state_of (handleGlobalTap p u s))
          = Resolved (state_of (handleGlobalTap p u s))
      \<and> (steps s \<noteq> [] \<and> playerA s \<noteq> None \<and> playerB s \<noteq> None \<longrightarrow>
            activePlayer (state_of (handleGlobalTap p' u'
                (state_of (handleGlobalTap p u s))))
              = (if p then standbyPlayer s else activePlayer s)
          \<and> currentIndex (state_of (handleGlobalTap p' u'
                (state_of (handleGlobalTap p u s))))
              = (if p \<and> u then (currentIndex s + 1) mod length (steps s)
                 else currentIndex s)))"
proof -
  have a: "handleGlobalTap p' u' (state_of (handleGlobalTap p u s))
             = Resolved (state_of (handleGlobalTap p u s))"
    by (rule handleGlobalTap_locked) (rule isTransitioning_after_tap)
  have b: "activePlayer (state_of (handleGlobalTap p u s))
             = (if p then standbyPlayer s else activePlayer s)
         \<and> currentIndex (state_of (handleGlobalTap p u s))
             = (if p \<and> u then (currentIndex s + 1) mod length (steps s)
                else currentIndex s)"
    if h: "\<not> isTransitioning s" "steps s \<noteq> []" "playerA s \<noteq> None" "playerB s \<noteq> None"
    using tap_outcomes[OF h] by (cases p; cases u) simp_all
  have c: "commands_of s (state_of (handleGlobalTap p u s)) = []" if "isTransitioning s"
    using that by (simp add: handleGlobalTap_locked commands_of_def)
  show ?thesis
    using a b c handleGlobalTap_locked[of s p u] by simp
qed

theorem locked_advance_is_noop_witness:
  "\<not> isTransitioning launched_app \<and> currentIndex launched_app = 0
   \<and> activePlayer launched_app = A
   \<and> handleGlobalTap True True (state_of (handleGlobalTap True True launched_app))
       = Resolved (state_of (handleGlobalTap True True launched_app))
   \<and> activePlayer (state_of (handleGlobalTap True True
        (state_of (handleGlobalTap True True launched_app)))) = B
   \<and> currentIndex (state_of (handleGlobalTap True True
        (state_of (handleGlobalTap True True launched_app)))) = 1
   \<and> isTransitioning tapped_app
   \<and> handleGlobalTap True True tapped_app = Resolved tapped_app
   \<and> commands_of tapped_app (state_of (handleGlobalTap True True tapped_app)) = []"
proof -
  have f: "\<not> isTransitioning launched_app" "steps launched_app \<noteq> []"
    "playerA launched_app \<noteq> None" "playerB launched_app \<noteq> None"
    "currentIndex launched_app = 0" "length (steps launched_app) = 5"
    "activePlayer launched_app = A"
    by code_simp+
  have g: "isTransitioning tapped_app"
    by code_simp
  have sb: "standbyPlayer launched_app = B"
    by code_simp
  have e: "handleGlobalTap True True (state_of (handleGlobalTap True True launched_app))
             = Resolved (state_of (handleGlobalTap True True launched_app))"
    using f(1) locked_advance_is_noop [of launched_app True True True True] by blast
  have t: "activePlayer (state_of (handleGlobalTap True True
              (state_of (handleGlobalTap True True launched_app))))
             = (if True then standbyPlayer launched_app else activePlayer launched_app)
         \<and> currentIndex (state_of (handleGlobalTap True True
              (state_of (handleGlobalTap True True launched_app))))
             = (if True \<and> True
                then (currentIndex launched_app + 1) mod length (steps launched_app)
                else currentIndex launched_app)"
    using f(1,2,3,4) locked_advance_is_noop [of launched_app True True True True] by blast
  have 1: "activePlayer (state_of (handleGlobalTap True True
              (state_of (handleGlobalTap True True launched_app)))) = B
         \<and> currentIndex (state_of (handleGlobalTap True True
              (state_of (handleGlobalTap True True launched_app)))) = 1"
    using t sb f(5,6) by simp
  have 2: "handleGlobalTap True True tapped_app = Resolved tapped_app
         \<and> commands_of tapped_app (state_of (handleGlobalTap True True tapped_app)) = []"
    using g locked_advance_is_noop [of tapped_app True True True True]
    by blast
  show ?thesis
    using f(1,5,7) g e 1 2 by blast
qed

text \<open>
  The claim as the specification states it, at the state the launch of five uploaded
  steps leaves. Two taps whose first play rejects make no switch and leave
  \<^verbatim>\<open>currentIndex\<close> at 0; two taps whose first unload rejects make the switch and leave
  \<^verbatim>\<open>currentIndex\<close> at 0. Neither pair gives one switch with \<^verbatim>\<open>currentIndex\<close> at 1.
\<close>

theorem double_tap_counterexample:
  "\<not> isTransitioning launched_app
   \<and> activePlayer launched_app = A \<and> currentIndex launched_app = 0
   \<and> activePlayer (state_of (handleGlobalTap True True
        (state_of (handleGlobalTap False True launched_app)))) = A
   \<and> currentIndex (state_of (handleGlobalTap True True
        (state_of (handleGlobalTap False True launched_app)))) \<noteq> 1
   \<and> activePlayer (state_of (handleGlobalTap True True
        (state_of (handleGlobalTap True False launched_app)))) = B
   \<and> currentIndex (state_of (handleGlobalTap True True
        (state_of (handleGlobalTap True False launched_app)))) \<noteq> 1"
  by code_simp

subsection \<open>The order of the commands of one tap\<close>

lemma tap_commands:
  assumes "\<not> isTransitioning s" and "ref_of (standbyPlayer s) s \<noteq> None"
  shows "\<exists>cs. issued (state_of (handleGlobalTap p u s))
                = issued s @ PlayAsync (standbyPlayer s) # cs
             \<and> PlayAsync (standbyPlayer s) \<notin> set cs"
  using assms
  by (cases "activePlayer s") (auto simp: engine_defs split: option.splits if_splits)

text \<open>
  Claim C3. Among the commands that one tap issues, with the standby player mounted,
  every command that reclaims the old active player (its \<^verbatim>\<open>unloadAsync\<close> and its
  \<^verbatim>\<open>loadAsync\<close>) comes after the \<^verbatim>\<open>playAsync\<close> of the standby player, the new active
  one.
\<close>

theorem play_before_reclaim:
  assumes "ref_of (standbyPlayer s) s \<noteq> None"
    and "cs = commands_of s (state_of (handleGlobalTap p u s))"
    and "i < length cs"
    and "reclaims (activePlayer s) (cs ! i)"
  shows "\<exists>j<i. cs ! j = PlayAsync (standbyPlayer s)"
proof (cases "isTransitioning s")
  case True
  then have "cs = []"
    using assms(2) by (simp add: commands_of_def handleGlobalTap_locked)
  then show ?thesis
    using assms(3) by simp
next
  case False
  obtain ds where
    "issued (state_of (handleGlobalTap p u s)) = issued s @ PlayAsync (standbyPlayer s) # ds"
    using tap_commands[OF False assms(1)] by blast
  then have cs: "cs = PlayAsync (standbyPlayer s) # ds"
    using assms(2) by (simp add: commands_of_def)
  have "i \<noteq> 0"
  proof
    assume "i = 0"
    then have "reclaims (activePlayer s) (PlayAsync (standbyPlayer s))"
      using assms(4) cs by simp
    then show False
      by simp
  qed
  then show ?thesis
    using cs by auto
qed

theorem play_before_reclaim_witness:
  "commands_of playing_app tapped_app
     = [PlayAsync B, UnloadAsync A, LoadAsync A (Some ''v2'') False]
   \<and> (\<exists>j<1. commands_of playing_app tapped_app ! j = PlayAsync B)
   \<and> (\<exists>j<2. commands_of playing_app tapped_app ! j = PlayAsync B)"
proof -
  have cs: "commands_of playing_app tapped_app
              = [PlayAsync B, UnloadAsync A, LoadAsync A (Some ''v2'') False]"
    by code_simp
  have f: "ref_of (standbyPlayer playing_app) playing_app \<noteq> None"
    "standbyPlayer playing_app = B" "activePlayer playing_app = A"
    by code_simp+
  have "\<exists>j<1. commands_of playing_app tapped_app ! j = PlayAsync (standbyPlayer playing_app)"
    by (rule play_before_reclaim [OF f(1), of _ True True])
       (simp_all add: tapped_app_def [symmetric] cs f)
  moreover
  have "\<exists>j<2. commands_of playing_app tapped_app ! j = PlayAsync (standbyPlayer playing_app)"
    by (rule play_before_reclaim [OF f(1), of _ True True])
       (simp_all add: tapped_app_def [symmetric] cs f)
  ultimately show ?thesis
    using cs f(2) by simp
qed

subsection \<open>A play that fails\<close>

text \<open>
  Claim C4, as the code has it. A tap never looks at what the standby player holds:
  with the lock free and the standby player mounted, whatever that player's state, it
  issues \<^verbatim>\<open>playAsync\<close> on it exactly once and raises no alert. When that play
  rejects, the call ends there: the only changes are the lock, which stays set, and the
  one logged command; nothing is retried, nothing is signalled, and the application
  stays on the playback screen.
\<close>

theorem rejected_play_is_not_retried:
  assumes "\<not> isTransitioning s" and "ref_of (standbyPlayer s) s = Some q"
  shows "handleGlobalTap False u s
           = Rejected (s\<lparr>isTransitioning := True,
                         issued := issued s @ [PlayAsync (standbyPlayer s)]\<rparr>)
       \<and> count_list (commands_of s (state_of (handleGlobalTap p u s)))
            (PlayAsync (standbyPlayer s)) = 1
       \<and> alerts (state_of (handleGlobalTap p u s)) = alerts s
       \<and> setupMode (state_of (handleGlobalTap p u s)) = setupMode s"
proof -
  have 1: "handleGlobalTap False u s
             = Rejected (s\<lparr>isTransitioning := True,
                           issued := issued s @ [PlayAsync (standbyPlayer s)]\<rparr>)"
    using assms
    by (cases "activePlayer s") (auto simp: engine_defs split: option.splits if_splits)
  obtain cs where "issued (state_of (handleGlobalTap p u s))
                     = issued s @ PlayAsync (standbyPlayer s) # cs"
    and "PlayAsync (standbyPlayer s) \<notin> set cs"
    using tap_commands[OF assms(1), of p u] assms(2) by auto
  then have 2: "count_list (commands_of s (state_of (handleGlobalTap p u s)))
                  (PlayAsync (standbyPlayer s)) = 1"
    by (simp add: commands_of_def count_list_0_iff)
  have 3: "alerts (state_of (handleGlobalTap p u s)) = alerts s
         \<and> setupMode (state_of (handleGlobalTap p u s)) = setupMode s"
    by (cases "activePlayer s") (auto simp: engine_defs split: option.splits if_splits)
  show ?thesis
    using 1 2 3 by simp
qed

theorem rejected_play_is_not_retried_witness:
  "\<not> isTransitioning stalled_app \<and> bound_source B stalled_app = None
   \<and> handleGlobalTap False True stalled_app
       = Rejected (stalled_app\<lparr>isTransitioning := True,
                    issued := issued stalled_app @ [PlayAsync B]\<rparr>)
   \<and> count_list (commands_of stalled_app (state_of (handleGlobalTap True True stalled_app)))
        (PlayAsync B) = 1"
proof -
  have f: "\<not> isTransitioning stalled_app" "ref_of (standbyPlayer stalled_app) stalled_app = Some unloaded"
    "standbyPlayer stalled_app = B" "bound_source B stalled_app = None"
    by code_simp+
  show ?thesis
    using f rejected_play_is_not_retried [OF f(1) f(2), of True True]
    by simp
qed

text \<open>
  The claim as the specification states it, at the state whose standby player B holds
  nothing and whose play rejects (also on a second attempt): play is not issued twice,
  no error is raised, and the application is still on the playback screen.
\<close>

theorem no_retry_counterexample:
  "bound_source B stalled_app = None
   \<and> \<not> isTransitioning stalled_app
   \<and> count_list (issued (state_of (handleGlobalTap False False stalled_app))) (PlayAsync B) \<noteq> 2
   \<and> alerts (state_of (handleGlobalTap False False stalled_app)) = []
   \<and> \<not> setupMode (state_of (handleGlobalTap False False stalled_app))"
  by code_simp

subsection \<open>Refused initialisation\<close>

text \<open>
  Claim C5. When some step has no locator (its \<^verbatim>\<open>uri\<close> is \<^verbatim>\<open>null\<close>),
  \<^verbatim>\<open>startExperience\<close> raises the "Steps Incomplete" alert and changes nothing else: no
  command is issued, neither player changes, and the setup screen stays.
\<close>

theorem incomplete_sequence_is_refused:
  assumes "i < length (steps s)" and "uri (steps s ! i) = None"
  shows "startExperience a b s = s\<lparr>alerts := alerts s @ [steps_incomplete_alert]\<rparr>
       \<and> issued (startExperience a b s) = issued s
       \<and> playerA (startExperience a b s) = playerA s
       \<and> playerB (startExperience a b s) = playerB s
       \<and> setupMode (startExperience a b s) = setupMode s"
proof -
  have "steps s ! i \<in> set (steps s)"
    using assms(1) by simp
  then have "list_ex (\<lambda>st. falsy (uri st)) (steps s)"
    using assms(2) by (auto simp: list_ex_iff falsy_def)
  then show ?thesis
    by (simp add: startExperience_def)
qed

theorem incomplete_sequence_is_refused_witness:
  "length (steps scenario_b) = 4 \<and> uri (steps scenario_b ! 2) = None
   \<and> startExperience True True scenario_b
       = scenario_b\<lparr>alerts := alerts scenario_b @ [steps_incomplete_alert]\<rparr>
   \<and> issued (startExperience True True scenario_b) = []
   \<and> playerA (startExperience True True scenario_b) = Some unloaded
   \<and> playerB (startExperience True True scenario_b) = Some unloaded"
proof -
  have f: "2 < length (steps scenario_b)" "uri (steps scenario_b ! 2) = None"
    "length (steps scenario_b) = 4" "issued scenario_b = []"
    "playerA scenario_b = Some unloaded" "playerB scenario_b = Some unloaded"
    by code_simp+
  show ?thesis
    using f incomplete_sequence_is_refused [OF f(1) f(2), of True True]
    by simp
qed

lemma startExperience_complete:
  assumes "\<not> list_ex (\<lambda>st. falsy (uri st)) (steps s)"
  shows "startExperience a b s =
        (case startExperience_try a b (s\<lparr>isLoading := True\<rparr>) of
           Resolved s' \<Rightarrow> s'\<lparr>isLoading := False\<rparr>
         | Rejected s' \<Rightarrow> s'\<lparr>alerts := alerts s' @ [engine_error_alert], isLoading := False\<rparr>)"
  using assms by (simp add: startExperience_def)

subsection \<open>Reclaiming the old active player\<close>

text \<open>
  Claim C7, as the code has it. A tap that finds the lock free, with both players
  mounted and a play that resolves, commands the player that was active to unload and
  then, once the unload has resolved, to load the clip of
  \<^verbatim>\<open>(currentIndex + 2) % steps.length\<close>. These are all its commands besides the
  play: no \<^verbatim>\<open>stopAsync\<close> is issued. When the unload rejects, no load is issued.
\<close>

theorem reclaim_commands:
  assumes "\<not> isTransitioning s" and "steps s \<noteq> []"
    and "playerA s = Some pa" and "playerB s = Some pb"
  shows "commands_of s (state_of (handleGlobalTap True True s)) =
           [PlayAsync (standbyPlayer s), UnloadAsync (activePlayer s),
            LoadAsync (activePlayer s)
              (uri (steps s ! ((currentIndex s + 2) mod length (steps s)))) False]
       \<and> commands_of s (state_of (handleGlobalTap True False s)) =
           [PlayAsync (standbyPlayer s), UnloadAsync (activePlayer s)]"
proof -
  have pos: "0 < length (steps s)"
    using assms(2) by simp
  have idx: "Suc (Suc (currentIndex s) mod length (steps s)) mod length (steps s)
               < length (steps s)"
    by (rule mod_less_divisor[OF pos])
  show ?thesis
  proof (cases "activePlayer s")
    case A
    then show ?thesis
      using assms idx by (simp add: commands_of_def engine_defs mod_Suc_eq)
  next
    case B
    then show ?thesis
      using assms idx by (simp add: commands_of_def engine_defs mod_Suc_eq)
  qed
qed

theorem reclaim_commands_witness:
  "currentIndex playing_app = 0 \<and> activePlayer playing_app = A
   \<and> commands_of playing_app (state_of (handleGlobalTap True True playing_app))
       = [PlayAsync B, UnloadAsync A, LoadAsync A (Some ''v2'') False]
   \<and> commands_of playing_app (state_of (handleGlobalTap True False playing_app))
       = [PlayAsync B, UnloadAsync A]"
proof -
  have f: "\<not> isTransitioning playing_app" "steps playing_app \<noteq> []"
    "playerA playing_app = Some \<lparr> source = Some (Some ''v0''), playing = True \<rparr>"
    "playerB playing_app = Some \<lparr> source = Some (Some ''v1''), playing = False \<rparr>"
    by code_simp+
  have g: "currentIndex playing_app = 0" "activePlayer playing_app = A"
    "standbyPlayer playing_app = B" "length (steps playing_app) = 5"
    "uri (steps playing_app ! 2) = Some ''v2''"
    by code_simp+
  show ?thesis
    using g reclaim_commands [OF f]
    by (simp add: numeral_2_eq_2)
qed

text \<open>
  The claim as the specification states it, at the state after a successful
  \<^verbatim>\<open>startExperience\<close> on five steps: the old active player A is not commanded to stop.
\<close>

theorem no_stop_counterexample:
  "\<not> isTransitioning playing_app
   \<and> StopAsync A \<notin> set (issued (state_of (handleGlobalTap True True playing_app)))
   \<and> commands_of playing_app (state_of (handleGlobalTap True True playing_app))
       \<noteq> [PlayAsync B, StopAsync A, UnloadAsync A, LoadAsync A (Some ''v2'') False]"
  by code_simp

subsection \<open>The round trip\<close>

lemma advance_step:
  assumes "\<not> isTransitioning s" and "steps s \<noteq> []"
  shows "\<not> isTransitioning (advance s) \<and> steps (advance s) = steps s
       \<and> currentIndex (advance s) = (currentIndex s + 1) mod length (steps s)
       \<and> activePlayer (advance s) = standbyPlayer s"
proof -
  have pos: "0 < length (steps s)"
    using assms(2) by simp
  have idx: "Suc (Suc (currentIndex s) mod length (steps s)) mod length (steps s)
               < length (steps s)"
    by (rule mod_less_divisor[OF pos])
  show ?thesis
    using assms idx
    by (cases "activePlayer s")
       (auto simp: advance_def fireTimer_def engine_defs split: option.splits)
qed

lemma standby_toggled:
  "(if toggled n l = A then B else A) = toggled (Suc n) l"
  by (cases l) auto

lemma advance_funpow:
  assumes "\<not> isTransitioning s" and "currentIndex s < length (steps s)"
  shows "\<not> isTransitioning ((advance ^^ n) s) \<and> steps ((advance ^^ n) s) = steps s
       \<and> currentIndex ((advance ^^ n) s) = (currentIndex s + n) mod length (steps s)
       \<and> activePlayer ((advance ^^ n) s) = toggled n (activePlayer s)"
proof (induction n)
  case 0
  then show ?case
    using assms by simp
next
  case (Suc n)
  let ?t = "(advance ^^ n) s"
  have t: "\<not> isTransitioning ?t" "steps ?t \<noteq> []"
    using Suc assms by auto
  have c: "currentIndex (advance ?t) = (currentIndex s + Suc n) mod length (steps s)"
    using advance_step[OF t] Suc by (simp add: mod_Suc_eq)
  have a: "activePlayer (advance ?t) = toggled (Suc n) (activePlayer s)"
    using advance_step[OF t] Suc standby_toggled[of n "activePlayer s"]
    by (simp only: standbyPlayer_def)
  show ?case
    using advance_step[OF t] Suc c a by simp
qed

lemma startExperience_keeps:
  "currentIndex (startExperience a b s) = currentIndex s"
  "activePlayer (startExperience a b s) = activePlayer s"
  "isTransitioning (startExperience a b s) = isTransitioning s"
  "steps (startExperience a b s) = steps s"
  by (auto simp: startExperience_def startExperience_try_def loadAsync_def issue_def Let_def
      split: option.splits)

text \<open>
  Claim C8, as the code has it. After a successful \<^verbatim>\<open>startExperience\<close> on a fresh
  playback state, as many taps as there are steps (each with commands that resolve
  and followed by its lock timer) bring \<^verbatim>\<open>currentIndex\<close> back to 0. Each tap switches
  the active player, so the pairing is the initial one (A active) exactly when the
  number of steps is even; for an odd number, as \<open>STEP_COUNT\<close> is, the roles end
  exchanged. Twice as many taps restore both.
\<close>

theorem round_trip:
  assumes "currentIndex s0 = 0" and "activePlayer s0 = A" and "\<not> isTransitioning s0"
    and "steps s0 \<noteq> []"
    and "s = startExperience a b s0" and "\<not> setupMode s"
  shows "currentIndex ((advance ^^ length (steps s0)) s) = 0
       \<and> activePlayer ((advance ^^ length (steps s0)) s)
           = (if even (length (steps s0)) then A else B)
       \<and> currentIndex ((advance ^^ (2 * length (steps s0))) s) = 0
       \<and> activePlayer ((advance ^^ (2 * length (steps s0))) s) = A"
proof -
  have s: "\<not> isTransitioning s" "steps s = steps s0" "currentIndex s = 0"
    "activePlayer s = A"
    using assms by (simp_all add: startExperience_keeps)
  have lt: "currentIndex s < length (steps s)"
    using s assms(4) by simp
  show ?thesis
    using advance_funpow[OF s(1) lt, of "length (steps s0)"]
          advance_funpow[OF s(1) lt, of "2 * length (steps s0)"] s(2,3,4)
    by simp
qed

theorem round_trip_witness:
  "\<not> setupMode playing_app \<and> length (steps demo_app) = 5
   \<and> currentIndex ((advance ^^ 5) playing_app) = 0
   \<and> activePlayer ((advance ^^ 5) playing_app) = B
   \<and> currentIndex ((advance ^^ 10) playing_app) = 0
   \<and> activePlayer ((advance ^^ 10) playing_app) = A"
proof -
  have f: "currentIndex demo_app = 0" "activePlayer demo_app = A"
    "\<not> isTransitioning demo_app" "steps demo_app \<noteq> []"
    "playing_app = startExperience True True demo_app" "\<not> setupMode playing_app"
    by code_simp+
  have g: "length (steps demo_app) = 5"
    by code_simp
  show ?thesis
    using f(6) g round_trip [OF f]
    by simp
qed

text \<open>
  The claim as the specification states it, at the five steps of \<open>STEP_COUNT\<close>: after
  five taps \<^verbatim>\<open>currentIndex\<close> is 0 again, but the active player is B, not A.
\<close>

theorem round_trip_counterexample:
  "length (steps playing_app) = 5
   \<and> currentIndex ((advance ^^ 5) playing_app) = 0
   \<and> activePlayer playing_app = A
   \<and> activePlayer ((advance ^^ 5) playing_app) \<noteq> activePlayer playing_app"
proof -
  have f: "\<not> isTransitioning playing_app" "currentIndex playing_app < length (steps playing_app)"
    by code_simp+
  have g: "length (steps playing_app) = 5" "currentIndex playing_app = 0"
    "activePlayer playing_app = A"
    by code_simp+
  show ?thesis
    using g advance_funpow [OF f, of 5]
    by simp
qed

subsection \<open>The launch\<close>

lemma engine_run_snoc:
  "engine_run d (evs @ [e]) = render (engine_step d e (engine_run d evs))"
  by (simp add: engine_run_def)

lemma setup_screen_refs:
  assumes "setupMode (engine_run d evs)"
  shows "playerA (engine_run d evs) = None \<and> playerB (engine_run d evs) = None"
proof (cases evs rule: rev_cases)
  case Nil
  then show ?thesis
    by (simp add: engine_run_def initial_app_def)
next
  case (snoc es e)
  then show ?thesis
    using assms by (simp add: engine_run_snoc render_def split: if_splits)
qed

lemma startExperience_null_refs:
  assumes "playerA s = None" and "playerB s = None"
    and "\<not> list_ex (\<lambda>st. falsy (uri st)) (steps s)"
  shows "startExperience a b s = s\<lparr>setupMode := False, isLoading := False\<rparr>"
  using assms
  by (simp add: startExperience_complete startExperience_try_def loadAsync_def)

lemma launch_run:
  assumes "setupMode (engine_run d evs)"
    and "\<not> list_ex (\<lambda>st. falsy (uri st)) (steps (engine_run d evs))"
  shows "engine_run d (evs @ [StartExperience a b])
           = (engine_run d evs)\<lparr>setupMode := False, isLoading := False,
                playerA := Some unloaded, playerB := Some unloaded\<rparr>"
proof -
  have n: "playerA (engine_run d evs) = None" "playerB (engine_run d evs) = None"
    using setup_screen_refs[OF assms(1)] by simp_all
  show ?thesis
    using assms(1) n startExperience_null_refs[OF n assms(2), of a b]
    by (simp add: engine_run_snoc render_def)
qed

text \<open>
  Claim C1, at the launch. In every run of the component that is on the setup screen
  with every step uploaded, pressing the launch button leaves the setup screen,
  whatever the outcome of the loads, with a player A and a player B that hold
  nothing: the active player does not hold the clip of \<^verbatim>\<open>currentIndex\<close>, nor the
  standby player the next one, and the engine invariant does not hold.
\<close>

theorem launch_primes_nothing:
  assumes "setupMode (engine_run d evs)"
    and "\<not> list_ex (\<lambda>st. falsy (uri st)) (steps (engine_run d evs))"
  shows "\<not> setupMode (engine_run d (evs @ [StartExperience a b]))
       \<and> issued (engine_run d (evs @ [StartExperience a b])) = issued (engine_run d evs)
       \<and> bound_source A (engine_run d (evs @ [StartExperience a b])) = None
       \<and> bound_source B (engine_run d (evs @ [StartExperience a b])) = None
       \<and> \<not> engine_inv (engine_run d (evs @ [StartExperience a b]))"
proof -
  have "bound_source l (engine_run d (evs @ [StartExperience a b])) = None" for l
    by (cases l) (simp_all add: launch_run[OF assms] bound_source_def unloaded_def)
  then show ?thesis
    by (simp add: launch_run[OF assms] engine_inv_def)
qed

text \<open>
  The run of five uploads and the launch: no command has been issued, player A is
  the active one and holds nothing, and \<^verbatim>\<open>currentIndex\<close> is 0. After one tap whose
  commands resolve player B is the active one and holds nothing; the invariant holds
  from the second such tap on.
\<close>

theorem launch_primes_nothing_witness:
  "setupMode uploaded_app \<and> \<not> setupMode launched_app
   \<and> issued launched_app = []
   \<and> activePlayer launched_app = A \<and> currentIndex launched_app = 0
   \<and> uri (steps launched_app ! 0) = Some ''doc/videos/step_0.mp4''
   \<and> bound_source A launched_app = None
   \<and> \<not> engine_inv launched_app
   \<and> activePlayer (advance launched_app) = B
   \<and> bound_source B (advance launched_app) = None
   \<and> \<not> engine_inv (advance launched_app)
   \<and> engine_inv (advance (advance launched_app))"
proof -
  have f: "setupMode (engine_run ''doc/'' upload_events)"
    "\<not> list_ex (\<lambda>st. falsy (uri st)) (steps (engine_run ''doc/'' upload_events))"
    by code_simp+
  have g: "setupMode uploaded_app" "issued (engine_run ''doc/'' upload_events) = []"
    "activePlayer launched_app = A" "currentIndex launched_app = 0"
    "uri (steps launched_app ! 0) = Some ''doc/videos/step_0.mp4''"
    "activePlayer (advance launched_app) = B"
    "bound_source B (advance launched_app) = None"
    "\<not> engine_inv (advance launched_app)"
    "engine_inv (advance (advance launched_app))"
    by code_simp+
  show ?thesis
    using g launch_primes_nothing [OF f, of True True]
    by (simp add: launched_app_def)
qed



section \<open>The divisor of the index computations\<close>

lemma array_set_not_empty: "array_set xs i v \<noteq> []"
  by (auto simp: array_set_def)

lemma simple_step_inv:
  assumes "playing_s s \<longrightarrow> uris s \<noteq> []"
  shows "playing_s (simple_step d e s) \<longrightarrow> uris (simple_step d e s) \<noteq> []"
  using assms
  by (cases e)
     (auto simp: pickVideo_def next_tap_def Let_def array_set_not_empty split: pick.splits)

lemma simple_fold_inv:
  assumes "playing_s s \<longrightarrow> uris s \<noteq> []"
  shows "playing_s (fold (simple_step d) evs s) \<longrightarrow> uris (fold (simple_step d) evs s) \<noteq> []"
  using assms
proof (induction evs arbitrary: s)
  case Nil
  then show ?case
    by simp
next
  case (Cons e evs)
  show ?case
    using Cons.IH[OF simple_step_inv[OF Cons.prems]] by simp
qed

lemma length_load_files: "length (load_files d fs st) = length st"
  by (induction d fs st rule: load_files.induct) auto

lemma length_steps_tap: "length (steps (state_of (handleGlobalTap p u s))) = length (steps s)"
  by (cases "activePlayer s") (auto simp: engine_defs split: option.splits)

lemma engine_step_length: "length (steps (render (engine_step d e s))) = length (steps s)"
  by (cases e)
     (auto simp: render_def loadSavedAssets_def length_load_files handleUpload_def Let_def
        startExperience_keeps length_steps_tap fireTimer_def split: option.splits upload.splits)

lemma engine_fold_length:
  "length (steps (fold (\<lambda>e s. render (engine_step d e s)) evs s)) = length (steps s)"
  by (induction evs arbitrary: s) (simp_all add: engine_step_length)

text \<open>
  Claim C9, as the code has it. The divisor of \<^verbatim>\<open>(index + 1) % uris.length\<close> and of
  \<^verbatim>\<open>(currentIndex + 1) % steps.length\<close>, \<^verbatim>\<open>(nextIndex + 1) % steps.length\<close> is never zero
  where the code computes them. In the simple variant the start button starts
  playback only from a \<^verbatim>\<open>uris.length\<close> of 2 on, and whatever the user did and whenever
  the calls of \<^verbatim>\<open>pickVideo\<close> ended, the array is not empty while the application is
  playing. In the engine variant, whatever happened, \<^verbatim>\<open>steps.length\<close> is
  \<open>STEP_COUNT\<close>, which is 5.
\<close>

theorem modulo_divisor_never_zero:
  "(playing_s (simple_step d Start s) \<and> \<not> playing_s s \<longrightarrow> 2 \<le> length (uris s))
   \<and> (playing_s (simple_run d evs) \<longrightarrow> length (uris (simple_run d evs)) \<noteq> 0)
   \<and> length (steps (engine_run d' evs')) = STEP_COUNT
   \<and> length (steps (engine_run d' evs')) \<noteq> 0"
proof -
  have "playing_s (simple_run d evs) \<longrightarrow> uris (simple_run d evs) \<noteq> []"
    unfolding simple_run_def by (rule simple_fold_inv) (simp add: initial_simple_def)
  moreover have "length (steps (engine_run d' evs')) = STEP_COUNT"
    by (simp add: engine_run_def engine_fold_length initial_app_def)
  ultimately show ?thesis
    by (auto simp: STEP_COUNT_def)
qed

theorem modulo_divisor_never_zero_witness:
  "\<not> playing_s (simple_run ''doc/'' [PickVideo 2, PickVideoEnds 0 (Picked ''c'') True True])
   \<and> playing_s (simple_step ''doc/'' Start
        (simple_run ''doc/'' [PickVideo 2, PickVideoEnds 0 (Picked ''c'') True True]))
   \<and> 2 \<le> length (uris
        (simple_run ''doc/'' [PickVideo 2, PickVideoEnds 0 (Picked ''c'') True True]))
   \<and> playing_s (simple_run ''doc/'' late_pick_events)
   \<and> length (uris (simple_run ''doc/'' late_pick_events)) \<noteq> 0
   \<and> \<not> setupMode (engine_run ''doc/'' engine_events)
   \<and> currentIndex (engine_run ''doc/'' engine_events) = 1
   \<and> length (steps (engine_run ''doc/'' engine_events)) = 5"
proof -
  let ?s = "simple_run ''doc/'' [PickVideo 2, PickVideoEnds 0 (Picked ''c'') True True]"
  have f: "\<not> playing_s ?s" "playing_s (simple_step ''doc/'' Start ?s)"
    "playing_s (simple_run ''doc/'' late_pick_events)"
    "\<not> setupMode (engine_run ''doc/'' engine_events)"
    "currentIndex (engine_run ''doc/'' engine_events) = 1"
    by code_simp+
  note t = modulo_divisor_never_zero [of "''doc/''" ?s late_pick_events "''doc/''" engine_events]
  have 1: "2 \<le> length (uris ?s)"
    using f(1,2) t by blast
  have 2: "length (uris (simple_run ''doc/'' late_pick_events)) \<noteq> 0"
    using f(3) t by blast
  have "length (steps (engine_run ''doc/'' engine_events)) = STEP_COUNT"
    using t by blast
  then have 3: "length (steps (engine_run ''doc/'' engine_events)) = 5"
    by (simp only: STEP_COUNT_def)
  show ?thesis
    using f 1 2 3 by blast
qed

text \<open>
  The claim as the specification states it: playback does not need two uploaded
  clips. After one upload, into the third slot, the array has length 3, the start
  button is there and the application plays with one clip. And a call of
  \<^verbatim>\<open>pickVideo\<close> that ends during playback, started when the array was empty, leaves
  an array of one clip.
\<close>

theorem two_clips_counterexample:
  "playing_s (simple_run ''doc/'' simple_events)
   \<and> uris (simple_run ''doc/'' simple_events) = [None, None, Some ''doc/vid2.mp4'']
   \<and> length (filter (\<lambda>u. u \<noteq> None) (uris (simple_run ''doc/'' simple_events))) = 1
   \<and> playing_s (simple_run ''doc/'' late_pick_events)
   \<and> uris (simple_run ''doc/'' late_pick_events) = [Some ''doc/vid0.mp4'']"
  by code_simp

end
